theory Spec2Isabelle
  imports Main "HOL-Library.Finite_Map"
begin

section \<open>The external driver\<close>

text \<open>
  The browser driver (chromedp) is not part of the repository. Every call the code makes
  to it is recorded as an \<open>event\<close> in a trace, oldest first, and the driver's answers are
  parameters: a \<open>driver\<close> maps the trace so far and the arguments of a call to the answer,
  so a driver may answer differently once a context has been cancelled.

  An execution context is identified by a number. \<open>chromedp.NewExecAllocator\<close> and
  \<open>chromedp.NewContext\<close> are always called in a pair by the code, so one number stands for
  the allocator context and the browser context derived from it.
\<close>

type_synonym ctx = nat

type_synonym hook = string

datatype flag_value = BoolFlag bool | StringFlag string

datatype allocator_option =
    OptExecPath string
  | OptFlag string flag_value
  | OptUserDataDir string
  | OptDisableGPU
  | OptWindowSize int int
  | OptProxyServer string

datatype event =
    NewExecAllocator ctx "allocator_option list"
  | NewContext ctx
  | RunNavigate ctx string
  | RunFetchEnable ctx
  | ListenTarget ctx hook
  | RunGetCookies ctx
  | RunEvaluate ctx string bool
  | ChromedpCancel ctx
  | CancelCtx ctx
  | CancelAlloc ctx
  | Terminated ctx
  | LogCancelFailed int string
  | LogClosed int
  | LogError string
  | Printed string

text \<open>
  \<open>RunEvaluate c e await\<close> is \<open>chromedp.Run\<close> of \<open>chromedp.Evaluate\<close> on the expression \<open>e\<close>,
  \<open>await\<close> telling whether \<open>WithAwaitPromise(true)\<close> was set. \<open>ChromedpCancel\<close> is
  \<open>chromedp.Cancel\<close>; \<open>CancelCtx\<close> and \<open>CancelAlloc\<close> are the two cancel functions returned by
  \<open>NewContext\<close> and \<open>NewExecAllocator\<close>. \<open>Terminated c\<close> is the one event that is not a call
  of the code: the context \<open>c\<close> ended from outside (the browser process died).
  The \<open>Log\<close> events are the lines written with \<open>log.Printf\<close> and \<open>log.Println\<close>, \<open>Printed\<close>
  is \<open>fmt.Println\<close>.
\<close>

text \<open>
  The outcome of \<open>chromedp.Evaluate(expr, &data)\<close>, where \<open>data\<close> is a fresh empty Go map:
  \<open>EvalFailed e\<close> when the evaluation failed with error \<open>e\<close> before anything was decoded
  (the map stays empty), \<open>EvalDecoded m e\<close> when the result object was decoded into the map,
  leaving the entries \<open>m\<close>, the decoder reporting \<open>e\<close> (\<open>None\<close> is Go's nil error).
\<close>

datatype 'v evaluate_result =
    EvalFailed string
  | EvalDecoded "string \<rightharpoonup> 'v" "string option"

fun written :: "'v evaluate_result \<Rightarrow> (string \<rightharpoonup> 'v)" where
  "written (EvalFailed e) = Map.empty"
| "written (EvalDecoded m e) = m"

fun returned_error :: "'v evaluate_result \<Rightarrow> string option" where
  "returned_error (EvalFailed e) = Some e"
| "returned_error (EvalDecoded m e) = e"

record network_cookie =
  nc_Name :: string
  nc_Value :: string
  nc_Domain :: string
  nc_Path :: string
  nc_Size :: int
  nc_HTTPOnly :: bool
  nc_Secure :: bool
  nc_Session :: bool

record BrowserResponse =
  Data :: string
  Error :: string
  Token :: string

record driver =
  navigate :: "event list \<Rightarrow> ctx \<Rightarrow> string \<Rightarrow> string option"
  fetch_enable :: "event list \<Rightarrow> ctx \<Rightarrow> string option"
  get_cookies :: "event list \<Rightarrow> ctx \<Rightarrow> string + network_cookie list"
  evaluate_response :: "event list \<Rightarrow> ctx \<Rightarrow> string \<Rightarrow> BrowserResponse option evaluate_result"
  evaluate_string :: "event list \<Rightarrow> ctx \<Rightarrow> string \<Rightarrow> string evaluate_result"
  cancel :: "event list \<Rightarrow> ctx \<Rightarrow> string option"

text \<open>
  An answer \<open>Some e\<close> of \<open>navigate\<close>, \<open>fetch_enable\<close> or \<open>cancel\<close> is the Go error with
  message \<open>e\<close>; \<open>None\<close> is nil. \<open>evaluate_response\<close> decodes into a
  \<open>map[string]*BrowserResponse\<close> (an entry may hold the nil pointer, \<open>None\<close>),
  \<open>evaluate_string\<close> into a \<open>map[string]string\<close>.
\<close>

section \<open>BrowserInstance\<close>

text \<open>
  A \<open>context.CancelFunc\<close> is modelled by the driver calls it makes when it is invoked;
  the nil function is \<open>None\<close>.
\<close>

type_synonym cancel_func = "event list"

record BrowserInstance =
  ID :: int
  Browser :: ctx
  Ctx :: ctx
  Cancel :: "cancel_func option"
  closed :: bool

text \<open>
  Instances are shared through pointers: the controller's map, the caller of
  \<open>LaunchBrowser\<close> and the monitor goroutine all hold the same \<open>*BrowserInstance\<close>. The
  store \<open>heap\<close> holds every instance ever created, a pointer is an index into it.
  \<open>ctxs\<close> counts the contexts created so far, \<open>monitors\<close> lists the instances whose
  \<open>monitorContext\<close> goroutine has been started and has not returned.
  Each method holds the instance's mutex for its whole body, so a method is one atomic step
  of the world.
\<close>

record world =
  heap :: "BrowserInstance list"
  trace :: "event list"
  ctxs :: nat
  monitors :: "nat list"

definition emit :: "event list \<Rightarrow> world \<Rightarrow> world" where
  "emit es w = w\<lparr>trace := trace w @ es\<rparr>"

text \<open>\<open>Closed\<close> (\<open>IsClosed\<close> in the older copy of the file) reads the flag under the lock.\<close>

definition Closed :: "nat \<Rightarrow> world \<Rightarrow> bool" where
  "Closed a w = closed (heap w ! a)"

text \<open>
  \<open>Close\<close>, as in \<open>browser_instance.go\<close>. A pointer outside the store does not exist in Go;
  the model leaves the world as it is there.
\<close>

definition Close :: "driver \<Rightarrow> nat \<Rightarrow> world \<Rightarrow> world" where
  "Close drv a w =
     (if a < length (heap w) then
        (let bi = heap w ! a in
         if closed bi then w
         else
           let w1 = (case cancel drv (trace w) (Ctx bi) of
                       Some e \<Rightarrow> emit [ChromedpCancel (Ctx bi), LogCancelFailed (ID bi) e] w
                     | None \<Rightarrow> emit [ChromedpCancel (Ctx bi)] w);
               w2 = (case Cancel bi of Some f \<Rightarrow> emit f w1 | None \<Rightarrow> w1);
               w3 = w2\<lparr>heap := (heap w2)[a := bi\<lparr>closed := True\<rparr>]\<rparr>
           in emit [LogClosed (ID bi)] w3)
      else w)"

text \<open>
  The older copy of the file (\<open>part_001\<close>) has the same body and returns an error, which
  is nil on both paths.
\<close>

definition Close_1 :: "driver \<Rightarrow> nat \<Rightarrow> world \<Rightarrow> string option \<times> world" where
  "Close_1 drv a w =
     (if a < length (heap w) then
        (let bi = heap w ! a in
         if closed bi then (None, w)
         else
           let w1 = (case cancel drv (trace w) (Ctx bi) of
                       Some e \<Rightarrow> emit [ChromedpCancel (Ctx bi), LogCancelFailed (ID bi) e] w
                     | None \<Rightarrow> emit [ChromedpCancel (Ctx bi)] w);
               w2 = (case Cancel bi of Some f \<Rightarrow> emit f w1 | None \<Rightarrow> w1);
               w3 = w2\<lparr>heap := (heap w2)[a := bi\<lparr>closed := True\<rparr>]\<rparr>
           in (None, emit [LogClosed (ID bi)] w3))
      else (None, w))"

text \<open>
  The errors the code makes itself: \<open>SessionClosed\<close> is the error \<open>Goto\<close> and \<open>GetCookies\<close>
  build with \<open>fmt.Errorf\<close> when the instance is closed, \<open>NotFound id\<close> the controller's
  "browser instance with ID id does not exist", \<open>CookiesFailed e\<close> the wrapped error of
  \<open>GetCookies\<close>, and \<open>Failure e\<close> an error of the driver or of a callback, passed on as it
  is.
\<close>

datatype error = SessionClosed | NotFound int | CookiesFailed string | Failure string

definition Context :: "nat \<Rightarrow> world \<Rightarrow> ctx \<times> world" where
  "Context a w = (Ctx (heap w ! a), emit [Printed ''get Context''] w)"

definition WaitFor :: "nat \<Rightarrow> (ctx \<Rightarrow> world \<Rightarrow> 'r \<times> world) \<Rightarrow> world \<Rightarrow> 'r \<times> world" where
  "WaitFor a cb w = (let (c, w1) = Context a w in cb c w1)"

definition Evaluate_string ::
  "driver \<Rightarrow> string \<Rightarrow> ctx \<Rightarrow> world \<Rightarrow> string evaluate_result \<times> world" where
  "Evaluate_string drv expr c w =
     (evaluate_string drv (trace w) c expr, emit [RunEvaluate c expr False] w)"

text \<open>The two \<open>fmt.Sprintf\<close> wrappers around the caller's expression.\<close>

definition CallJs2Str_expr :: "string \<Rightarrow> string" where
  "CallJs2Str_expr eval = ''(function() {return {\"dst\":'' @ eval @ ''};})()''"

definition SabaFetch_expr :: "string \<Rightarrow> string" where
  "SabaFetch_expr eval = ''(async function() {var c = '' @ eval @ '';return {\"dst\":c};})()''"

definition CallJs2Str :: "driver \<Rightarrow> nat \<Rightarrow> string \<Rightarrow> world \<Rightarrow> string \<times> world" where
  "CallJs2Str drv a eval w =
     (let (r, w1) =
            WaitFor a (Evaluate_string drv (CallJs2Str_expr eval)) w
      in case written r ''dst'' of
           Some val \<Rightarrow> (val, w1)
         | None \<Rightarrow> ('''', w1))"

fun run_hooks :: "(ctx \<Rightarrow> string option) list \<Rightarrow> ctx \<Rightarrow> string option" where
  "run_hooks [] c = None"
| "run_hooks (cb # cbs) c = (case cb c of Some err \<Rightarrow> Some err | None \<Rightarrow> run_hooks cbs c)"

definition Goto ::
  "driver \<Rightarrow> nat \<Rightarrow> string \<Rightarrow> (ctx \<Rightarrow> string option) list \<Rightarrow> world \<Rightarrow> error option \<times> world" where
  "Goto drv a url beforeNavigate w =
     (if Closed a w then (Some SessionClosed, w)
      else
        let c = Ctx (heap w ! a) in
        case run_hooks beforeNavigate c of
          Some err \<Rightarrow> (Some (Failure err), w)
        | None \<Rightarrow> (map_option Failure (navigate drv (trace w) c url), emit [RunNavigate c url] w))"

record http_cookie =
  hc_Name :: string
  hc_Value :: string
  hc_Path :: string
  hc_Domain :: string
  hc_Secure :: bool
  hc_HttpOnly :: bool

definition convertCookies :: "network_cookie list \<Rightarrow> http_cookie list" where
  "convertCookies netCookies =
     foldl (\<lambda>httpCookies netCookie.
              httpCookies @ [\<lparr>hc_Name = nc_Name netCookie, hc_Value = nc_Value netCookie,
                              hc_Path = nc_Path netCookie, hc_Domain = nc_Domain netCookie,
                              hc_Secure = nc_Secure netCookie,
                              hc_HttpOnly = nc_HTTPOnly netCookie\<rparr>])
           [] netCookies"

definition GetCookies :: "driver \<Rightarrow> nat \<Rightarrow> world \<Rightarrow> (error + http_cookie list) \<times> world" where
  "GetCookies drv a w =
     (if Closed a w then (Inl SessionClosed, w)
      else
        let c = Ctx (heap w ! a) in
        case get_cookies drv (trace w) c of
          Inl err \<Rightarrow> (Inl (CookiesFailed err), emit [RunGetCookies c] w)
        | Inr cks \<Rightarrow> (Inr (convertCookies cks), emit [RunGetCookies c] w))"

text \<open>\<open>SabaFetch\<close> returns a \<open>*BrowserResponse\<close>; \<open>None\<close> is the nil pointer.\<close>

definition SabaFetch ::
  "driver \<Rightarrow> nat \<Rightarrow> string \<Rightarrow> world \<Rightarrow> BrowserResponse option \<times> world" where
  "SabaFetch drv a eval w =
     (let c = Ctx (heap w ! a);
          expr = SabaFetch_expr eval;
          r = evaluate_response drv (trace w) c expr;
          w1 = emit [RunEvaluate c expr True] w
      in case written r ''dst'' of
           Some val \<Rightarrow> (val, w1)
         | None \<Rightarrow>
             (let b = \<lparr>Data = '''', Error = ''nil Response'', Token = ''''\<rparr>
              in case returned_error r of
                   Some err \<Rightarrow> (Some (b\<lparr>Error := err\<rparr>), w1)
                 | None \<Rightarrow> (Some b, w1)))"

definition Err :: "BrowserResponse \<Rightarrow> string option" where
  "Err this = (if length (Error this) > 0 then Some (Error this) else None)"

text \<open>
  \<open>NewBrowserInstance\<close> allocates the instance and starts its monitor goroutine (the
  older copy of the file, \<open>part_001\<close>, starts none). The
  monitor waits for the context's done-signal, which fires when the context or its parent
  is cancelled or when the context ends from outside; \<open>monitorContext\<close> is \<open>None\<close> as long
  as the goroutine cannot pass its wait, and the world after its \<open>Close\<close> once it can.
\<close>

definition NewBrowserInstance ::
  "int \<Rightarrow> ctx \<Rightarrow> ctx \<Rightarrow> cancel_func option \<Rightarrow> world \<Rightarrow> nat \<times> world" where
  "NewBrowserInstance ident browser c cancel_f w =
     (length (heap w),
      w\<lparr>heap := heap w @ [\<lparr>ID = ident, Browser = browser, Ctx = c, Cancel = cancel_f, closed = False\<rparr>],
        monitors := monitors w @ [length (heap w)]\<rparr>)"

definition done_in :: "event list \<Rightarrow> ctx \<Rightarrow> bool" where
  "done_in tr c \<longleftrightarrow> CancelCtx c \<in> set tr \<or> CancelAlloc c \<in> set tr \<or> Terminated c \<in> set tr"

definition ctx_done :: "world \<Rightarrow> ctx \<Rightarrow> bool" where
  "ctx_done w c = done_in (trace w) c"

definition terminate :: "ctx \<Rightarrow> world \<Rightarrow> world" where
  "terminate c w = emit [Terminated c] w"

definition monitorContext :: "driver \<Rightarrow> nat \<Rightarrow> world \<Rightarrow> world option" where
  "monitorContext drv a w =
     (if a \<in> set (monitors w) \<and> a < length (heap w) \<and> ctx_done w (Ctx (heap w ! a))
      then Some (Close drv a (w\<lparr>monitors := removeAll a (monitors w)\<rparr>))
      else None)"

section \<open>BrowserController\<close>

record Point =
  X :: int
  Y :: int

record BrowserOptions =
  Path :: string
  Fingerprint :: string
  Proxy :: string
  UserDir :: string
  Headless :: bool
  HookFunc :: "hook option"
  WindowSize :: "Point option"
  DisableGPU :: bool

text \<open>
  \<open>instances\<close> is the Go map from handles to instance pointers. Go's \<open>int\<close> has 64 bits on
  the platforms the driver runs on; \<open>go_int\<close> is the wrap-around of \<open>nextID++\<close>.
\<close>

record BrowserController =
  instances :: "(int, nat) fmap"
  nextID :: int

definition go_int :: "int \<Rightarrow> int" where
  "go_int x = (x + 2 ^ 63) mod 2 ^ 64 - 2 ^ 63"

definition NewBrowserController :: BrowserController where
  "NewBrowserController = \<lparr>instances = fmempty, nextID = 1\<rparr>"

text \<open>
  The configuration \<open>LaunchBrowser\<close> builds; \<open>defaults\<close> is
  \<open>chromedp.DefaultExecAllocatorOptions\<close>, which is not part of the repository.
\<close>

definition allocatorOpts :: "allocator_option list \<Rightarrow> BrowserOptions \<Rightarrow> allocator_option list" where
  "allocatorOpts defaults options =
     (let opts = defaults @ [OptExecPath (Path options),
                             OptFlag ''headless'' (BoolFlag (Headless options))];
          opts = (if UserDir options \<noteq> '''' then opts @ [OptUserDataDir (UserDir options)] else opts);
          opts = (if DisableGPU options then opts @ [OptDisableGPU] else opts);
          opts = (case WindowSize options of
                    Some p \<Rightarrow> opts @ [OptWindowSize (X p) (Y p)]
                  | None \<Rightarrow> opts);
          opts = (if Proxy options \<noteq> '''' then opts @ [OptProxyServer (Proxy options)] else opts);
          opts = (if Fingerprint options \<noteq> ''''
                  then opts @ [OptFlag ''fp'' (StringFlag (Fingerprint options))] else opts)
      in opts)"

text \<open>
  The last part of \<open>LaunchBrowser\<close>: the handle is taken, the instance created with the
  release function that calls \<open>cancel\<close> and \<open>cancelAlloc\<close>, and stored in the map.
\<close>

definition register_instance ::
  "ctx \<Rightarrow> BrowserController \<times> world \<Rightarrow> (error + nat) \<times> BrowserController \<times> world" where
  "register_instance c s =
     (let (bc, w) = s;
          ident = nextID bc;
          bc1 = bc\<lparr>nextID := go_int (nextID bc + 1)\<rparr>;
          (instance, w1) = NewBrowserInstance ident c c (Some [CancelCtx c, CancelAlloc c]) w
      in (Inr instance, bc1\<lparr>instances := fmupd ident instance (instances bc1)\<rparr>, w1))"

definition LaunchBrowser ::
  "driver \<Rightarrow> allocator_option list \<Rightarrow> BrowserOptions \<Rightarrow> BrowserController \<times> world
     \<Rightarrow> (error + nat) \<times> BrowserController \<times> world" where
  "LaunchBrowser drv defaults options s =
     (let (bc, w) = s;
          c = ctxs w;
          w1 = emit [NewExecAllocator c (allocatorOpts defaults options), NewContext c]
                 (w\<lparr>ctxs := Suc (ctxs w)\<rparr>);
          err = navigate drv (trace w1) c ''about:blank'';
          w2 = emit [RunNavigate c ''about:blank''] w1
      in case err of
           Some e \<Rightarrow> (Inl (Failure e), bc, emit [CancelCtx c, CancelAlloc c] w2)
         | None \<Rightarrow>
             (case HookFunc options of
                Some h \<Rightarrow>
                  (case fetch_enable drv (trace w2) c of
                     Some e \<Rightarrow> (Inl (Failure e), bc, emit [RunFetchEnable c, LogError e] w2)
                   | None \<Rightarrow> register_instance c (bc, emit [RunFetchEnable c, ListenTarget c h] w2))
              | None \<Rightarrow> register_instance c (bc, w2)))"

definition CloseBrowser ::
  "driver \<Rightarrow> int \<Rightarrow> BrowserController \<times> world \<Rightarrow> error option \<times> BrowserController \<times> world" where
  "CloseBrowser drv ident s =
     (let (bc, w) = s in
      case fmlookup (instances bc) ident of
        None \<Rightarrow> (Some (NotFound ident), bc, w)
      | Some instance \<Rightarrow> (None, bc\<lparr>instances := fmdrop ident (instances bc)\<rparr>, Close drv instance w))"

definition GetBrowserInstance :: "int \<Rightarrow> BrowserController \<Rightarrow> error + nat" where
  "GetBrowserInstance ident bc =
     (case fmlookup (instances bc) ident of
        None \<Rightarrow> Inl (NotFound ident)
      | Some instance \<Rightarrow> Inr instance)"

text \<open>
  \<open>CloseAllBrowsers\<close> ranges over the map while deleting from it. Go leaves the order of
  a range over a map open: \<open>order\<close> stands for the choice of the runtime, a function from
  the key set to a list of it. A key that has been deleted before the range reaches it is
  not produced, hence the lookup in the loop.
\<close>

fun CloseAllBrowsers_loop ::
  "driver \<Rightarrow> int list \<Rightarrow> BrowserController \<times> world \<Rightarrow> BrowserController \<times> world" where
  "CloseAllBrowsers_loop drv [] s = s"
| "CloseAllBrowsers_loop drv (ident # ids) s =
     (case fmlookup (instances (fst s)) ident of
        None \<Rightarrow> CloseAllBrowsers_loop drv ids s
      | Some instance \<Rightarrow>
          CloseAllBrowsers_loop drv ids
            ((fst s)\<lparr>instances := fmdrop ident (instances (fst s))\<rparr>, Close drv instance (snd s)))"

definition CloseAllBrowsers ::
  "driver \<Rightarrow> (int fset \<Rightarrow> int list) \<Rightarrow> BrowserController \<times> world \<Rightarrow> BrowserController \<times> world" where
  "CloseAllBrowsers drv order s = CloseAllBrowsers_loop drv (order (fmdom (instances (fst s)))) s"

definition GetBrowserCount :: "BrowserController \<Rightarrow> int" where
  "GetBrowserCount bc = int (fcard (fmdom (instances bc)))"

section \<open>Runs of a controller\<close>

text \<open>
  Every pointer in the map is an instance of the store. This holds of the fresh
  controller and is kept by every call below.
\<close>

definition valid_pointers :: "BrowserController \<times> world \<Rightarrow> bool" where
  "valid_pointers s = fmpred (\<lambda>i a. a < length (heap (snd s))) (instances (fst s))"

text \<open>
  The calls a program makes on one controller and its instances, with the two things that
  happen without a call: a context ends from outside (\<open>Crash\<close>), and the scheduler lets a
  monitor goroutine take its step (\<open>MonitorStep\<close>; nothing happens while the goroutine
  waits). The controller's mutex makes each call one step. \<open>step\<close> returns the handle a
  successful \<open>LaunchBrowser\<close> issues, read from the instance returned; \<open>run\<close> collects the
  handles in the order of issue.
\<close>

datatype call =
    Launch BrowserOptions
  | CloseCall int
  | CloseAllCall
  | InstanceClose nat
  | Crash ctx
  | MonitorStep nat

fun step ::
  "driver \<Rightarrow> allocator_option list \<Rightarrow> (int fset \<Rightarrow> int list) \<Rightarrow> call
     \<Rightarrow> BrowserController \<times> world \<Rightarrow> int option \<times> BrowserController \<times> world" where
  "step drv defaults order (Launch options) s =
     (case LaunchBrowser drv defaults options s of
        (Inl e, s1) \<Rightarrow> (None, s1)
      | (Inr instance, s1) \<Rightarrow> (Some (ID (heap (snd s1) ! instance)), s1))"
| "step drv defaults order (CloseCall ident) s = (None, snd (CloseBrowser drv ident s))"
| "step drv defaults order CloseAllCall s = (None, CloseAllBrowsers drv order s)"
| "step drv defaults order (InstanceClose a) s = (None, fst s, Close drv a (snd s))"
| "step drv defaults order (Crash c) s = (None, fst s, terminate c (snd s))"
| "step drv defaults order (MonitorStep a) s =
     (None, fst s, case monitorContext drv a (snd s) of None \<Rightarrow> snd s | Some w \<Rightarrow> w)"

fun run ::
  "driver \<Rightarrow> allocator_option list \<Rightarrow> (int fset \<Rightarrow> int list) \<Rightarrow> call list
     \<Rightarrow> BrowserController \<times> world \<Rightarrow> int list \<times> BrowserController \<times> world" where
  "run drv defaults order [] s = ([], s)"
| "run drv defaults order (c # cs) s =
     (let (h, s1) = step drv defaults order c s;
          (hs, s2) = run drv defaults order cs s1
      in ((case h of None \<Rightarrow> [] | Some ident \<Rightarrow> [ident]) @ hs, s2))"

section \<open>Concrete drivers and inputs\<close>

text \<open>
  \<open>stub_driver\<close> answers as a browser does: every call on a live context succeeds, every
  call on a context whose done-signal has fired fails with "context canceled".
  \<open>no_fetch_driver\<close> differs in that \<open>fetch.Enable\<close> fails, \<open>dead_driver\<close> in that the
  first navigation fails.
\<close>

definition empty_world :: world where
  "empty_world = \<lparr>heap = [], trace = [], ctxs = 0, monitors = []\<rparr>"

definition stub_driver :: driver where
  "stub_driver = \<lparr>
     navigate = (\<lambda>tr c url. if done_in tr c then Some ''context canceled'' else None),
     fetch_enable = (\<lambda>tr c. if done_in tr c then Some ''context canceled'' else None),
     get_cookies = (\<lambda>tr c. if done_in tr c then Inl ''context canceled'' else Inr []),
     evaluate_response =
       (\<lambda>tr c e. if done_in tr c then EvalFailed ''context canceled''
                  else EvalDecoded [''dst'' \<mapsto> Some \<lparr>Data = ''ok'', Error = '''', Token = ''''\<rparr>] None),
     evaluate_string =
       (\<lambda>tr c e. if done_in tr c then EvalFailed ''context canceled''
                  else EvalDecoded [''dst'' \<mapsto> ''ok''] None),
     cancel = (\<lambda>tr c. if done_in tr c then Some ''context canceled'' else None)\<rparr>"

definition no_fetch_driver :: driver where
  "no_fetch_driver = stub_driver\<lparr>fetch_enable := (\<lambda>tr c. Some ''fetch.Enable failed'')\<rparr>"

definition dead_driver :: driver where
  "dead_driver = stub_driver\<lparr>navigate := (\<lambda>tr c url. Some ''chrome failed to start'')\<rparr>"

definition plain :: BrowserOptions where
  "plain = \<lparr>Path = '''', Fingerprint = '''', Proxy = '''', UserDir = '''', Headless = False,
            HookFunc = None, WindowSize = None, DisableGPU = False\<rparr>"

definition hooked :: BrowserOptions where
  "hooked = plain\<lparr>HookFunc := Some ''listener''\<rparr>"

definition full :: BrowserOptions where
  "full = \<lparr>Path = ''/bin/chrome'', Fingerprint = ''fp1'', Proxy = ''127.0.0.1:8080'',
           UserDir = ''/tmp/u'', Headless = True, HookFunc = Some ''listener'',
           WindowSize = Some \<lparr>X = 800, Y = 600\<rparr>, DisableGPU = True\<rparr>"

text \<open>One launched instance (handle 1, pointer 0), and the same after \<open>CloseBrowser 1\<close>.\<close>

definition one_open :: "BrowserController \<times> world" where
  "one_open = snd (LaunchBrowser stub_driver [] plain (NewBrowserController, empty_world))"

definition one_closed :: "BrowserController \<times> world" where
  "one_closed = snd (CloseBrowser stub_driver 1 one_open)"


text \<open>
  A driver on which the launch of context 1 fails, and a run on it: two launches (the
  second fails), a third launch, \<open>CloseBrowser 1\<close>, a crash of context 2 with its monitor
  step, a launch, \<open>CloseAllBrowsers\<close>, and a last launch.
\<close>

definition flaky_driver :: driver where
  "flaky_driver =
     stub_driver\<lparr>navigate := (\<lambda>tr c url. if c = 1 then Some ''chrome failed to start'' else None)\<rparr>"

definition session_calls :: "call list" where
  "session_calls =
     [Launch plain, Launch plain, Launch hooked, CloseCall 1, Crash 2, MonitorStep 1,
      Launch full, CloseAllCall, Launch plain]"

section \<open>Close\<close>

lemma heap_emit: "heap (emit es w) = heap w"
  by (simp add: emit_def)

lemma trace_emit: "trace (emit es w) = trace w @ es"
  by (simp add: emit_def)

lemma length_heap_Close: "length (heap (Close drv a w)) = length (heap w)"
  by (simp add: Close_def Let_def heap_emit split: option.splits)

lemma Closed_Close: "a < length (heap w) \<Longrightarrow> Closed a (Close drv a w)"
  by (simp add: Close_def Closed_def Let_def heap_emit split: option.splits)

lemma Close_closed: "Closed a w \<Longrightarrow> Close drv a w = w"
  by (simp add: Close_def Closed_def Let_def)

lemma Close_Close: "Close drv a (Close drv a w) = Close drv a w"
proof (cases "a < length (heap w)")
  case True
  then show ?thesis
    by (simp add: Close_closed Closed_Close)
next
  case False
  then show ?thesis
    by (simp add: Close_def)
qed

lemma Close_funpow: "(Close drv a ^^ Suc n) w = Close drv a w"
  by (induction n) (simp_all add: Close_Close)

lemma Close_1_eq: "Close_1 drv a w = (None, Close drv a w)"
  by (simp add: Close_1_def Close_def Let_def)

text \<open>The calls an open instance's first \<open>Close\<close> makes: one \<open>chromedp.Cancel\<close>, the
  release function once, and the flag set.\<close>

lemma trace_Close_open:
  assumes "a < length (heap w)" and "\<not> Closed a w"
  shows "trace (Close drv a w) =
           trace w
           @ ChromedpCancel (Ctx (heap w ! a))
             # (case cancel drv (trace w) (Ctx (heap w ! a)) of
                  Some e \<Rightarrow> [LogCancelFailed (ID (heap w ! a)) e] | None \<Rightarrow> [])
           @ (case Cancel (heap w ! a) of Some f \<Rightarrow> f | None \<Rightarrow> [])
           @ [LogClosed (ID (heap w ! a))]"
  using assms
  by (simp add: Close_def Closed_def Let_def emit_def split: option.splits)

section \<open>The concrete worlds\<close>

lemmas fixture_defs =
  LaunchBrowser_def CloseBrowser_def Close_def stub_driver_def no_fetch_driver_def
  dead_driver_def plain_def hooked_def full_def NewBrowserController_def empty_world_def
  emit_def allocatorOpts_def done_in_def register_instance_def NewBrowserInstance_def
  go_int_def

lemma one_open_eq:
  "one_open =
     (\<lparr>instances = fmupd 1 0 fmempty, nextID = 2\<rparr>,
      \<lparr>heap = [\<lparr>ID = 1, Browser = 0, Ctx = 0,
                 Cancel = Some [CancelCtx 0, CancelAlloc 0], closed = False\<rparr>],
       trace = [NewExecAllocator 0 [OptExecPath '''', OptFlag ''headless'' (BoolFlag False)],
                NewContext 0, RunNavigate 0 ''about:blank''],
       ctxs = 1, monitors = [0]\<rparr>)"
  by (simp add: one_open_def fixture_defs)

lemma fmdrop_fmupd_fmempty: "fmdrop k (fmupd k v fmempty) = fmempty"
  by (rule fmap_ext) simp

lemma one_closed_eq:
  "one_closed =
     (\<lparr>instances = fmempty, nextID = 2\<rparr>,
      \<lparr>heap = [\<lparr>ID = 1, Browser = 0, Ctx = 0,
                 Cancel = Some [CancelCtx 0, CancelAlloc 0], closed = True\<rparr>],
       trace = [NewExecAllocator 0 [OptExecPath '''', OptFlag ''headless'' (BoolFlag False)],
                NewContext 0, RunNavigate 0 ''about:blank'', ChromedpCancel 0,
                CancelCtx 0, CancelAlloc 0, LogClosed 1],
       ctxs = 1, monitors = [0]\<rparr>)"
  by (simp add: one_closed_def one_open_eq CloseBrowser_def Close_def emit_def stub_driver_def
      done_in_def fmdrop_fmupd_fmempty)

section \<open>CloseBrowser\<close>

lemma fcard_fminus1_int:
  assumes "i |\<in>| A"
  shows "int (fcard (A |-| {|i|})) = int (fcard A) - 1"
proof -
  have "fcard (A |-| {|i|}) < fcard A"
    using assms by (rule fcard_fminus1_less)
  moreover have "fcard A = Suc (fcard (A |-| {|i|})) \<or> fcard A = fcard (A |-| {|i|})"
    using fcard_finsert_if [of i "A |-| {|i|}"] assms
    by (simp add: finsert_absorb)
  ultimately show ?thesis
    by auto
qed

text \<open>
  C5. \<open>CloseBrowser id\<close> returns the NotFound error exactly when \<open>id\<close> is not a key of
  the map, and then changes nothing. When \<open>id\<close> is present with instance \<open>a\<close> it returns
  nil, the world is the one \<open>Close\<close> of \<open>a\<close> leaves (whatever \<open>chromedp.Cancel\<close> answered),
  the entry is gone, \<open>GetBrowserInstance id\<close> fails with NotFound, the count is one less,
  and every other entry is kept.
\<close>

theorem CloseBrowser_correct:
  "(fst (CloseBrowser drv i (bc, w)) = Some (NotFound i)) = (fmlookup (instances bc) i = None)
   \<and> (fst (CloseBrowser drv i (bc, w)) = None) = (fmlookup (instances bc) i \<noteq> None)
   \<and> (fmlookup (instances bc) i = None \<longrightarrow> snd (CloseBrowser drv i (bc, w)) = (bc, w))
   \<and> (\<forall>a. fmlookup (instances bc) i = Some a \<longrightarrow>
          snd (snd (CloseBrowser drv i (bc, w))) = Close drv a w
        \<and> instances (fst (snd (CloseBrowser drv i (bc, w)))) = fmdrop i (instances bc)
        \<and> nextID (fst (snd (CloseBrowser drv i (bc, w)))) = nextID bc
        \<and> GetBrowserInstance i (fst (snd (CloseBrowser drv i (bc, w)))) = Inl (NotFound i)
        \<and> GetBrowserCount (fst (snd (CloseBrowser drv i (bc, w)))) = GetBrowserCount bc - 1
        \<and> (\<forall>j. j \<noteq> i \<longrightarrow>
              GetBrowserInstance j (fst (snd (CloseBrowser drv i (bc, w)))) =
              GetBrowserInstance j bc))"
proof (cases "fmlookup (instances bc) i")
  case None
  then show ?thesis
    by (simp add: CloseBrowser_def)
next
  case (Some a)
  then show ?thesis
    by (simp add: CloseBrowser_def GetBrowserInstance_def GetBrowserCount_def
        fcard_fminus1_int fmdomI del: fcard_fminus_finsert)
qed

theorem CloseBrowser_correct_witness:
  "fmlookup (instances (fst one_open)) 1 = Some 0
   \<and> fmlookup (instances (fst one_open)) 2 = None
   \<and> fst (CloseBrowser stub_driver 2 one_open) = Some (NotFound 2)
   \<and> snd (CloseBrowser stub_driver 2 one_open) = one_open
   \<and> fst (CloseBrowser stub_driver 1 one_open) = None
   \<and> snd (snd (CloseBrowser stub_driver 1 one_open)) = Close stub_driver 0 (snd one_open)
   \<and> GetBrowserInstance 1 (fst (snd (CloseBrowser stub_driver 1 one_open))) = Inl (NotFound 1)
   \<and> GetBrowserCount (fst one_open) = 1
   \<and> GetBrowserCount (fst (snd (CloseBrowser stub_driver 1 one_open))) = 0"
proof -
  have l: "fmlookup (instances (fst one_open)) 1 = Some 0"
    "fmlookup (instances (fst one_open)) 2 = None"
    by (simp_all add: one_open_eq)
  have n: "GetBrowserCount (fst one_open) = 1"
    by (simp add: one_open_eq GetBrowserCount_def fcard_finsert_if)
  show ?thesis
    using CloseBrowser_correct [of stub_driver 1 "fst one_open" "snd one_open"]
      CloseBrowser_correct [of stub_driver 2 "fst one_open" "snd one_open"] l n
    by simp
qed

section \<open>SabaFetch and CallJs2Str\<close>



lemma CallJs2Str_result:
  "fst (CallJs2Str drv a eval w) =
     (case written (evaluate_string drv (trace w @ [Printed ''get Context'']) (Ctx (heap w ! a))
                      (CallJs2Str_expr eval)) ''dst'' of
        Some val \<Rightarrow> val
      | None \<Rightarrow> '''')"
  by (simp add: CallJs2Str_def WaitFor_def Context_def Evaluate_string_def emit_def
      split: option.splits)

lemma CallJs2Str_trace:
  "trace (snd (CallJs2Str drv a eval w)) =
     trace w @ [Printed ''get Context'', RunEvaluate (Ctx (heap w ! a)) (CallJs2Str_expr eval) False]"
  by (simp add: CallJs2Str_def WaitFor_def Context_def Evaluate_string_def emit_def
      split: option.splits)

text \<open>
  C10. When the evaluation \<open>CallJs2Str\<close> runs failed, or left no \<open>dst\<close> entry, the
  result is the empty string. The result is a bare
  string and is the same for every error the evaluation may return; a failed evaluation
  (as on a closed instance, which \<open>CallJs2Str\<close> does not test for: setting the flag changes
  nothing) gives the very string that an evaluation decoding the empty string for
  \<open>dst\<close> gives.
\<close>

theorem CallJs2Str_empty_on_failure:
  "((\<exists>e. evaluate_string drv (trace w @ [Printed ''get Context'']) (Ctx (heap w ! a))
            (CallJs2Str_expr eval) = EvalFailed e)
     \<or> written (evaluate_string drv (trace w @ [Printed ''get Context'']) (Ctx (heap w ! a))
                  (CallJs2Str_expr eval)) ''dst'' = None
     \<longrightarrow> fst (CallJs2Str drv a eval w) = '''')
   \<and> (\<forall>m e e'. evaluate_string drv (trace w @ [Printed ''get Context'']) (Ctx (heap w ! a))
                  (CallJs2Str_expr eval) = EvalDecoded m e \<longrightarrow>
         fst (CallJs2Str drv a eval w) =
         fst (CallJs2Str (drv\<lparr>evaluate_string := \<lambda>tr c x. EvalDecoded m e'\<rparr>) a eval w))
   \<and> (evaluate_string drv (trace w @ [Printed ''get Context'']) (Ctx (heap w ! a))
            (CallJs2Str_expr eval) = EvalDecoded [''dst'' \<mapsto> ''''] None
       \<longrightarrow> fst (CallJs2Str drv a eval w) = '''')
   \<and> fst (CallJs2Str drv a eval (w\<lparr>heap := (heap w)[a := (heap w ! a)\<lparr>closed := b\<rparr>]\<rparr>)) =
       fst (CallJs2Str drv a eval w)"
proof -
  have "Ctx (((heap w)[a := (heap w ! a)\<lparr>closed := b\<rparr>]) ! a) = Ctx (heap w ! a)"
    by (cases "a < length (heap w)") (simp_all add: list_update_beyond)
  then show ?thesis
    by (auto simp add: CallJs2Str_result)
qed

theorem CallJs2Str_empty_on_failure_witness:
  "evaluate_string stub_driver (trace (snd one_closed) @ [Printed ''get Context''])
      (Ctx (heap (snd one_closed) ! 0)) (CallJs2Str_expr ''1'') = EvalFailed ''context canceled''
   \<and> fst (CallJs2Str stub_driver 0 ''1'' (snd one_closed)) = ''''
   \<and> evaluate_string (stub_driver\<lparr>evaluate_string := \<lambda>tr c x. EvalDecoded [''dst'' \<mapsto> ''''] None\<rparr>)
        (trace (snd one_open) @ [Printed ''get Context''])
        (Ctx (heap (snd one_open) ! 0)) (CallJs2Str_expr ''1'') = EvalDecoded [''dst'' \<mapsto> ''''] None
   \<and> fst (CallJs2Str (stub_driver\<lparr>evaluate_string := \<lambda>tr c x. EvalDecoded [''dst'' \<mapsto> ''''] None\<rparr>)
          0 ''1'' (snd one_open)) = ''''
   \<and> fst (CallJs2Str stub_driver 0 ''1'' (snd one_open)) = ''ok''"
proof -
  have 1: "evaluate_string stub_driver (trace (snd one_closed) @ [Printed ''get Context''])
      (Ctx (heap (snd one_closed) ! 0)) (CallJs2Str_expr ''1'') = EvalFailed ''context canceled''"
    by (simp add: one_closed_eq stub_driver_def done_in_def)
  have 2: "fst (CallJs2Str stub_driver 0 ''1'' (snd one_open)) = ''ok''"
    by (simp add: CallJs2Str_result one_open_eq stub_driver_def done_in_def)
  show ?thesis
    using CallJs2Str_empty_on_failure [of stub_driver "snd one_closed" 0 "''1''"]
      CallJs2Str_empty_on_failure
        [of "stub_driver\<lparr>evaluate_string := \<lambda>tr c x. EvalDecoded [''dst'' \<mapsto> ''''] None\<rparr>"
            "snd one_open" 0 "''1''"]
      1 2
    by simp
qed

section \<open>The launch configuration\<close>

text \<open>
  C9, as the code has it. The executable path and the headless flag are always passed,
  also when the path is empty and the flag false. The user-data directory, the proxy and
  the fingerprint give one entry each when not empty and none when empty, the window
  size one entry when not nil, the disable-GPU flag one entry when true. \<open>HookFunc\<close> gives
  no entry. The entries follow the defaults in this order.
\<close>

theorem allocatorOpts_entries:
  "allocatorOpts defaults options =
     defaults
     @ [OptExecPath (Path options), OptFlag ''headless'' (BoolFlag (Headless options))]
     @ (if UserDir options = '''' then [] else [OptUserDataDir (UserDir options)])
     @ (if DisableGPU options then [OptDisableGPU] else [])
     @ (case WindowSize options of None \<Rightarrow> [] | Some p \<Rightarrow> [OptWindowSize (X p) (Y p)])
     @ (if Proxy options = '''' then [] else [OptProxyServer (Proxy options)])
     @ (if Fingerprint options = '''' then []
        else [OptFlag ''fp'' (StringFlag (Fingerprint options))])"
  by (simp add: allocatorOpts_def split: option.splits)

theorem allocatorOpts_entries_witness:
  "allocatorOpts [OptFlag ''no-first-run'' (BoolFlag True)] full =
     [OptFlag ''no-first-run'' (BoolFlag True),
      OptExecPath ''/bin/chrome'', OptFlag ''headless'' (BoolFlag True),
      OptUserDataDir ''/tmp/u'', OptDisableGPU, OptWindowSize 800 600,
      OptProxyServer ''127.0.0.1:8080'', OptFlag ''fp'' (StringFlag ''fp1'')]"
  using allocatorOpts_entries [of "[OptFlag ''no-first-run'' (BoolFlag True)]" full]
  by (simp add: full_def)

text \<open>
  The claim as the specification words it fails: with every option empty, nil or false,
  two entries are passed all the same, the empty path and the false headless flag.
\<close>

theorem allocatorOpts_empty_counterexample:
  "allocatorOpts []
     \<lparr>Path = '''', Fingerprint = '''', Proxy = '''', UserDir = '''', Headless = False,
      HookFunc = None, WindowSize = None, DisableGPU = False\<rparr>
   = [OptExecPath '''', OptFlag ''headless'' (BoolFlag False)]"
  by (simp add: allocatorOpts_def)

section \<open>Operations on a closed instance\<close>

lemma Goto_closed: "Closed a w \<Longrightarrow> Goto drv a url beforeNavigate w = (Some SessionClosed, w)"
  by (simp add: Goto_def)

lemma GetCookies_closed: "Closed a w \<Longrightarrow> GetCookies drv a w = (Inl SessionClosed, w)"
  by (simp add: GetCookies_def)

lemma SabaFetch_trace:
  "trace (snd (SabaFetch drv a eval w)) =
     trace w @ [RunEvaluate (Ctx (heap w ! a)) (SabaFetch_expr eval) True]"
  by (simp add: SabaFetch_def Let_def emit_def split: option.splits)

text \<open>
  C1, at the instance closed by \<open>CloseBrowser 1\<close>. \<open>Goto\<close> and \<open>GetCookies\<close> return the
  SessionClosed error and make no call. \<open>SabaFetch\<close> and \<open>CallJs2Str\<close> do not read the
  flag: each runs its evaluation on the released context 0, and what comes back is what
  the driver answers there, the response carrying "context canceled" and the empty string.
\<close>

theorem closed_instance_operations:
  "Closed 0 (snd one_closed)
   \<and> Goto stub_driver 0 ''http://example.org'' [] (snd one_closed)
       = (Some SessionClosed, snd one_closed)
   \<and> GetCookies stub_driver 0 (snd one_closed) = (Inl SessionClosed, snd one_closed)
   \<and> fst (SabaFetch stub_driver 0 ''1'' (snd one_closed))
       = Some \<lparr>Data = '''', Error = ''context canceled'', Token = ''''\<rparr>
   \<and> trace (snd (SabaFetch stub_driver 0 ''1'' (snd one_closed)))
       = trace (snd one_closed) @ [RunEvaluate 0 (SabaFetch_expr ''1'') True]
   \<and> fst (CallJs2Str stub_driver 0 ''1'' (snd one_closed)) = ''''
   \<and> trace (snd (CallJs2Str stub_driver 0 ''1'' (snd one_closed)))
       = trace (snd one_closed)
         @ [Printed ''get Context'', RunEvaluate 0 (CallJs2Str_expr ''1'') False]"
proof -
  have c: "Closed 0 (snd one_closed)"
    by (simp add: one_closed_eq Closed_def)
  have s: "fst (SabaFetch stub_driver 0 ''1'' (snd one_closed))
       = Some \<lparr>Data = '''', Error = ''context canceled'', Token = ''''\<rparr>"
    by (simp add: SabaFetch_def one_closed_eq stub_driver_def done_in_def)
  have j: "fst (CallJs2Str stub_driver 0 ''1'' (snd one_closed)) = ''''"
    by (simp add: CallJs2Str_result one_closed_eq stub_driver_def done_in_def)
  have x: "Ctx (heap (snd one_closed) ! 0) = 0"
    by (simp add: one_closed_eq)
  show ?thesis
    using c s j x by (simp add: Goto_closed GetCookies_closed SabaFetch_trace CallJs2Str_trace)
qed

section \<open>LaunchBrowser\<close>

lemma LaunchBrowser_probe_failure:
  assumes "navigate drv (trace w @ [NewExecAllocator (ctxs w) (allocatorOpts defaults options),
                                    NewContext (ctxs w)]) (ctxs w) ''about:blank'' = Some e"
  shows "LaunchBrowser drv defaults options (bc, w) =
           (Inl (Failure e), bc,
            w\<lparr>ctxs := Suc (ctxs w),
              trace := trace w @ [NewExecAllocator (ctxs w) (allocatorOpts defaults options),
                                  NewContext (ctxs w), RunNavigate (ctxs w) ''about:blank'',
                                  CancelCtx (ctxs w), CancelAlloc (ctxs w)]\<rparr>)"
  using assms by (simp add: LaunchBrowser_def Let_def emit_def)

lemma LaunchBrowser_enable_failure:
  assumes "navigate drv (trace w @ [NewExecAllocator (ctxs w) (allocatorOpts defaults options),
                                    NewContext (ctxs w)]) (ctxs w) ''about:blank'' = None"
    and "HookFunc options = Some h"
    and "fetch_enable drv (trace w @ [NewExecAllocator (ctxs w) (allocatorOpts defaults options),
                                      NewContext (ctxs w), RunNavigate (ctxs w) ''about:blank''])
           (ctxs w) = Some e"
  shows "LaunchBrowser drv defaults options (bc, w) =
           (Inl (Failure e), bc,
            w\<lparr>ctxs := Suc (ctxs w),
              trace := trace w @ [NewExecAllocator (ctxs w) (allocatorOpts defaults options),
                                  NewContext (ctxs w), RunNavigate (ctxs w) ''about:blank'',
                                  RunFetchEnable (ctxs w), LogError e]\<rparr>)"
  using assms by (simp add: LaunchBrowser_def Let_def emit_def)

text \<open>
  C4, at the two failures. When the first navigation fails, \<open>cancel\<close> and \<open>cancelAlloc\<close>
  are called before the error is returned. When \<open>fetch.Enable\<close> fails, the error is
  logged and returned with neither called: the context 0 stays live. In both cases the
  controller is unchanged and no instance exists.
\<close>

theorem LaunchBrowser_failures:
  "LaunchBrowser dead_driver [] hooked (NewBrowserController, empty_world) =
     (Inl (Failure ''chrome failed to start''), NewBrowserController,
      \<lparr>heap = [],
       trace = [NewExecAllocator 0 [OptExecPath '''', OptFlag ''headless'' (BoolFlag False)],
                NewContext 0, RunNavigate 0 ''about:blank'', CancelCtx 0, CancelAlloc 0],
       ctxs = 1, monitors = []\<rparr>)
   \<and> LaunchBrowser no_fetch_driver [] hooked (NewBrowserController, empty_world) =
     (Inl (Failure ''fetch.Enable failed''), NewBrowserController,
      \<lparr>heap = [],
       trace = [NewExecAllocator 0 [OptExecPath '''', OptFlag ''headless'' (BoolFlag False)],
                NewContext 0, RunNavigate 0 ''about:blank'', RunFetchEnable 0,
                LogError ''fetch.Enable failed''],
       ctxs = 1, monitors = []\<rparr>)
   \<and> \<not> ctx_done (snd (snd (LaunchBrowser no_fetch_driver [] hooked
                               (NewBrowserController, empty_world)))) 0"
  by (simp add: fixture_defs ctx_done_def)

section \<open>The monitor\<close>

lemma NewBrowserInstance_monitor:
  assumes "NewBrowserInstance i b c f w0 = (a, w)"
  shows "a < length (heap w) \<and> a \<in> set (monitors w) \<and> \<not> Closed a w
       \<and> heap w ! a = \<lparr>ID = i, Browser = b, Ctx = c, Cancel = f, closed = False\<rparr>
       \<and> trace w = trace w0"
  using assms by (auto simp add: NewBrowserInstance_def Closed_def)

lemma monitors_Close: "monitors (Close drv a w) = monitors w"
  by (simp add: Close_def Let_def emit_def split: option.splits)

text \<open>
  C3. Take an open instance whose monitor goroutine is running. As long as the
  done-signal of its context has not fired the monitor waits. When the context ends from
  outside, with no \<open>Close\<close> called by anyone, the monitor's step is \<open>Close\<close>: it returns a
  world in which the instance is closed, reached by one run of the close path
  (\<open>chromedp.Cancel\<close>, the release function and the log line appear once after the
  signal). After that the monitor has returned, and any later \<open>Close\<close> changes nothing,
  so the instance is closed exactly once.
\<close>

theorem monitor_closes_once:
  assumes "a < length (heap w)" and "a \<in> set (monitors w)" and "\<not> Closed a w"
  shows "(\<not> ctx_done w (Ctx (heap w ! a)) \<longrightarrow> monitorContext drv a w = None)
       \<and> \<not> Closed a (terminate (Ctx (heap w ! a)) w)
       \<and> (\<exists>w2. monitorContext drv a (terminate (Ctx (heap w ! a)) w) = Some w2
               \<and> Closed a w2
               \<and> trace w2 =
                   trace w
                   @ [Terminated (Ctx (heap w ! a)), ChromedpCancel (Ctx (heap w ! a))]
                   @ (case cancel drv (trace w @ [Terminated (Ctx (heap w ! a))])
                             (Ctx (heap w ! a)) of
                        Some e \<Rightarrow> [LogCancelFailed (ID (heap w ! a)) e] | None \<Rightarrow> [])
                   @ (case Cancel (heap w ! a) of Some f \<Rightarrow> f | None \<Rightarrow> [])
                   @ [LogClosed (ID (heap w ! a))]
               \<and> monitorContext drv' a w2 = None
               \<and> Close drv' a w2 = w2)"
proof -
  let ?c = "Ctx (heap w ! a)"
  let ?w1 = "terminate ?c w"
  let ?w1' = "?w1\<lparr>monitors := removeAll a (monitors ?w1)\<rparr>"
  let ?w2 = "Close drv a ?w1'"
  have h: "a < length (heap ?w1')" "\<not> Closed a ?w1'" "heap ?w1' = heap w"
    "trace ?w1' = trace w @ [Terminated ?c]"
    using assms by (simp_all add: terminate_def emit_def Closed_def)
  have 1: "\<not> ctx_done w ?c \<longrightarrow> monitorContext drv a w = None"
    by (simp add: monitorContext_def)
  have 2: "\<not> Closed a ?w1"
    using assms(3) by (simp add: terminate_def emit_def Closed_def)
  have 3: "monitorContext drv a ?w1 = Some ?w2"
    using assms(1,2)
    by (simp add: monitorContext_def terminate_def emit_def ctx_done_def done_in_def)
  have 4: "Closed a ?w2"
    using h(1) by (rule Closed_Close)
  have 5: "trace ?w2 =
             trace w @ [Terminated ?c, ChromedpCancel ?c]
             @ (case cancel drv (trace w @ [Terminated ?c]) ?c of
                  Some e \<Rightarrow> [LogCancelFailed (ID (heap w ! a)) e] | None \<Rightarrow> [])
             @ (case Cancel (heap w ! a) of Some f \<Rightarrow> f | None \<Rightarrow> [])
             @ [LogClosed (ID (heap w ! a))]"
    using trace_Close_open [OF h(1,2), of drv] by (simp add: h(3,4) cong: option.case_cong)
  have "a \<notin> set (monitors ?w2)"
    by (simp add: monitors_Close)
  then have 6: "monitorContext drv' a ?w2 = None"
    by (simp add: monitorContext_def)
  have 7: "Close drv' a ?w2 = ?w2"
    using 4 by (rule Close_closed)
  show ?thesis
    using 1 2 3 4 5 6 7 by blast
qed

theorem monitor_closes_once_witness:
  "0 < length (heap (snd one_open)) \<and> 0 \<in> set (monitors (snd one_open))
   \<and> \<not> Closed 0 (snd one_open)
   \<and> \<not> ctx_done (snd one_open) 0
   \<and> monitorContext stub_driver 0 (snd one_open) = None
   \<and> \<not> Closed 0 (terminate 0 (snd one_open))
   \<and> (\<exists>w2. monitorContext stub_driver 0 (terminate 0 (snd one_open)) = Some w2
           \<and> Closed 0 w2
           \<and> trace w2 = trace (snd one_open)
                @ [Terminated 0, ChromedpCancel 0, LogCancelFailed 1 ''context canceled'',
                   CancelCtx 0, CancelAlloc 0, LogClosed 1]
           \<and> monitorContext stub_driver 0 w2 = None
           \<and> Close stub_driver 0 w2 = w2)"
proof -
  have h: "0 < length (heap (snd one_open))" "0 \<in> set (monitors (snd one_open))"
    "\<not> Closed 0 (snd one_open)"
    by (simp_all add: one_open_eq Closed_def)
  have d: "\<not> ctx_done (snd one_open) 0"
    by (simp add: one_open_eq ctx_done_def done_in_def)
  have v: "Ctx (heap (snd one_open) ! 0) = 0" "ID (heap (snd one_open) ! 0) = 1"
    "Cancel (heap (snd one_open) ! 0) = Some [CancelCtx 0, CancelAlloc 0]"
    "cancel stub_driver (trace (snd one_open) @ [Terminated 0]) 0 = Some ''context canceled''"
    by (simp_all add: one_open_eq stub_driver_def done_in_def)
  show ?thesis
    using monitor_closes_once [OF h, of stub_driver stub_driver] h d
    by (simp add: v)
qed

section \<open>CloseAllBrowsers\<close>

lemma Closed_Close_mono: "Closed a w \<Longrightarrow> Closed a (Close drv b w)"
proof (cases "b = a")
  case True
  assume "Closed a w"
  with True show ?thesis
    by (simp add: Close_closed)
next
  case False
  assume "Closed a w"
  with False show ?thesis
    by (simp add: Close_def Closed_def Let_def emit_def split: option.splits)
qed

lemma CloseAllBrowsers_loop_lookup:
  "fmlookup (instances (fst (CloseAllBrowsers_loop drv ids s))) k =
     (if k \<in> set ids then None else fmlookup (instances (fst s)) k)"
proof (induction ids arbitrary: s)
  case Nil
  show ?case by simp
next
  case (Cons i ids)
  show ?case
  proof (cases "fmlookup (instances (fst s)) i")
    case None
    then show ?thesis
      using Cons.IH [of s] by auto
  next
    case (Some b)
    then show ?thesis
      using Cons.IH [of "((fst s)\<lparr>instances := fmdrop i (instances (fst s))\<rparr>, Close drv b (snd s))"]
      by auto
  qed
qed

lemma CloseAllBrowsers_loop_nextID:
  "nextID (fst (CloseAllBrowsers_loop drv ids s)) = nextID (fst s)"
proof (induction ids arbitrary: s)
  case Nil
  show ?case by simp
next
  case (Cons i ids)
  show ?case
    by (cases "fmlookup (instances (fst s)) i") (simp_all add: Cons.IH)
qed

lemma CloseAllBrowsers_loop_length_heap:
  "length (heap (snd (CloseAllBrowsers_loop drv ids s))) = length (heap (snd s))"
proof (induction ids arbitrary: s)
  case Nil
  show ?case by simp
next
  case (Cons i ids)
  show ?case
    by (cases "fmlookup (instances (fst s)) i") (simp_all add: Cons.IH length_heap_Close)
qed

lemma CloseAllBrowsers_loop_Closed:
  assumes "a < length (heap (snd s))"
    and "Closed a (snd s) \<or> (\<exists>i\<in>set ids. fmlookup (instances (fst s)) i = Some a)"
  shows "Closed a (snd (CloseAllBrowsers_loop drv ids s))"
  using assms
proof (induction ids arbitrary: s)
  case Nil
  then show ?case by simp
next
  case (Cons i ids)
  show ?case
  proof (cases "fmlookup (instances (fst s)) i")
    case None
    from Cons.prems(2) None
    have "Closed a (snd s) \<or> (\<exists>j\<in>set ids. fmlookup (instances (fst s)) j = Some a)"
      by auto
    with Cons.prems(1) have "Closed a (snd (CloseAllBrowsers_loop drv ids s))"
      by (rule Cons.IH)
    with None show ?thesis by simp
  next
    case (Some b)
    let ?s = "((fst s)\<lparr>instances := fmdrop i (instances (fst s))\<rparr>, Close drv b (snd s))"
    have len: "a < length (heap (snd ?s))"
      using Cons.prems(1) by (simp add: length_heap_Close)
    have "Closed a (snd ?s) \<or> (\<exists>j\<in>set ids. fmlookup (instances (fst ?s)) j = Some a)"
    proof (cases "Closed a (snd s)")
      case True
      then show ?thesis
        by (simp add: Closed_Close_mono)
    next
      case False
      with Cons.prems(2) obtain j where j: "j \<in> set (i # ids)"
        "fmlookup (instances (fst s)) j = Some a"
        by blast
      show ?thesis
      proof (cases "j = i")
        case True
        with j Some have "b = a" by simp
        then show ?thesis
          using Cons.prems(1) by (simp add: Closed_Close)
      next
        case False
        with j show ?thesis by auto
      qed
    qed
    with len have "Closed a (snd (CloseAllBrowsers_loop drv ids ?s))"
      by (rule Cons.IH)
    with Some show ?thesis by simp
  qed
qed




section \<open>Handles\<close>

lemma go_int_id: "- (2 ^ 63) \<le> x \<Longrightarrow> x < 2 ^ 63 \<Longrightarrow> go_int x = x"
  by (simp add: go_int_def)

lemma go_int_range: "- (2 ^ 63) \<le> go_int x \<and> go_int x < 2 ^ 63"
proof -
  have "0 \<le> (x + 2 ^ 63) mod 2 ^ 64" "(x + 2 ^ 63) mod 2 ^ 64 < (2 ^ 64 :: int)"
    by simp_all
  then show ?thesis
    by (simp add: go_int_def)
qed

lemma register_instance_eq:
  "register_instance c (bc, w) =
     (Inr (length (heap w)),
      bc\<lparr>nextID := go_int (nextID bc + 1),
         instances := fmupd (nextID bc) (length (heap w)) (instances bc)\<rparr>,
      w\<lparr>heap := heap w @ [\<lparr>ID = nextID bc, Browser = c, Ctx = c,
                              Cancel = Some [CancelCtx c, CancelAlloc c], closed = False\<rparr>],
        monitors := monitors w @ [length (heap w)]\<rparr>)"
  by (simp add: register_instance_def NewBrowserInstance_def Let_def)

lemma LaunchBrowser_cases:
  assumes "LaunchBrowser drv defaults options (bc, w) = (r, bc1, w1)"
  shows "(\<exists>e. r = Inl e) \<and> bc1 = bc \<and> heap w1 = heap w
       \<or> r = Inr (length (heap w))
         \<and> length (heap w1) = Suc (length (heap w))
         \<and> ID (heap w1 ! length (heap w)) = nextID bc
         \<and> nextID bc1 = go_int (nextID bc + 1)
         \<and> instances bc1 = fmupd (nextID bc) (length (heap w)) (instances bc)"
  using assms
  by (auto simp add: LaunchBrowser_def Let_def register_instance_eq emit_def
      split: option.splits)

lemma step_nextID:
  assumes "step drv defaults order c s = (h, s1)"
  shows "h = None \<and> nextID (fst s1) = nextID (fst s)
       \<or> h = Some (nextID (fst s)) \<and> nextID (fst s1) = go_int (nextID (fst s) + 1)"
proof (cases c)
  case (Launch options)
  obtain r bc1 w1 where l: "LaunchBrowser drv defaults options (fst s, snd s) = (r, bc1, w1)"
    using prod_cases3 by blast
  from LaunchBrowser_cases [OF l] assms Launch l show ?thesis
    by (auto split: sum.splits)
next
  case (CloseCall i)
  with assms show ?thesis
    by (auto simp add: CloseBrowser_def split: option.splits prod.splits)
next
  case CloseAllCall
  with assms show ?thesis
    by (auto simp add: CloseAllBrowsers_def CloseAllBrowsers_loop_nextID)
next
  case (InstanceClose a)
  with assms show ?thesis by auto
next
  case (Crash x)
  with assms show ?thesis by auto
next
  case (MonitorStep a)
  with assms show ?thesis by auto
qed

lemma run_handles:
  assumes "run drv defaults order cs s = (hs, s1)"
    and "- (2 ^ 63) \<le> nextID (fst s)" and "nextID (fst s) < 2 ^ 63"
    and "nextID (fst s) + int (length hs) \<le> 2 ^ 63"
  shows "hs = map (\<lambda>k. nextID (fst s) + int k) [0..<length hs]"
  using assms
proof (induction cs arbitrary: s hs s1)
  case Nil
  then show ?case by simp
next
  case (Cons c cs)
  obtain h s2 where st: "step drv defaults order c s = (h, s2)"
    by (cases "step drv defaults order c s")
  obtain hs2 s3 where rn: "run drv defaults order cs s2 = (hs2, s3)"
    by (cases "run drv defaults order cs s2")
  from Cons.prems(1) st rn
  have hs: "hs = (case h of None \<Rightarrow> [] | Some i \<Rightarrow> [i]) @ hs2"
    by simp
  let ?n = "nextID (fst s)"
  from step_nextID [OF st] show ?case
  proof
    assume a: "h = None \<and> nextID (fst s2) = ?n"
    with hs have "hs = hs2" by simp
    with Cons.IH [OF rn] a Cons.prems(2,3,4) show ?thesis
      by simp
  next
    assume a: "h = Some ?n \<and> nextID (fst s2) = go_int (?n + 1)"
    with hs have hs': "hs = ?n # hs2" by simp
    show ?thesis
    proof (cases "hs2 = []")
      case True
      with hs' show ?thesis by simp
    next
      case False
      then have "1 \<le> int (length hs2)"
        by (cases hs2) simp_all
      moreover from Cons.prems(4) hs' have "?n + 1 + int (length hs2) \<le> 2 ^ 63"
        by simp
      ultimately have lt: "?n + 1 < 2 ^ 63"
        by linarith
      with Cons.prems(2) a have n2: "nextID (fst s2) = ?n + 1"
        by (simp add: go_int_id)
      have f: "(\<lambda>k. nextID (fst s2) + int k) = (\<lambda>k. ?n + int (Suc k))"
        using n2 by (auto simp add: fun_eq_iff)
      from Cons.prems(2,4) lt hs' n2
      have "hs2 = map (\<lambda>k. nextID (fst s2) + int k) [0..<length hs2]"
        by (intro Cons.IH [OF rn]) simp_all
      then have B: "hs2 = map (\<lambda>k. ?n + int (Suc k)) [0..<length hs2]"
        unfolding f .
      have "map (\<lambda>k. ?n + int k) [0..<Suc (length hs2)] =
              ?n # map (\<lambda>k. ?n + int (Suc k)) [0..<length hs2]"
        by (simp add: map_upt_Suc del: upt_Suc)
      also have "\<dots> = ?n # hs2"
        using B [symmetric] by simp
      finally show ?thesis
        using hs' by (simp del: upt_Suc)
    qed
  qed
qed

text \<open>
  C6. Take any sequence of calls on a fresh controller: launches that succeed or fail,
  \<open>CloseBrowser\<close>, \<open>CloseAllBrowsers\<close>, closes and crashes of instances, in any order. As
  long as fewer than \<open>2 ^ 63\<close> handles have been issued (the range of Go's \<open>int\<close>), the
  handles issued are 1, 2, 3, ... in the order of issue: the first is 1, they increase
  strictly, and no two are equal. The list holds every handle issued in the run, also
  those removed from the map in between, so a removed handle is not issued again.
\<close>

theorem handles_increasing:
  assumes "run drv defaults order calls (NewBrowserController, w) = (hs, s)"
    and "int (length hs) < 2 ^ 63"
  shows "hs = map (\<lambda>k. 1 + int k) [0..<length hs]
       \<and> sorted_wrt (<) hs
       \<and> distinct hs
       \<and> (hs \<noteq> [] \<longrightarrow> hd hs = 1)"
proof -
  have "hs = map (\<lambda>k. nextID (fst (NewBrowserController, w)) + int k) [0..<length hs]"
    using assms(1)
  proof (rule run_handles)
    show "- (2 ^ 63) \<le> nextID (fst (NewBrowserController, w))"
      by (simp add: NewBrowserController_def)
    show "nextID (fst (NewBrowserController, w)) < 2 ^ 63"
      by (simp add: NewBrowserController_def)
    show "nextID (fst (NewBrowserController, w)) + int (length hs) \<le> 2 ^ 63"
      using assms(2) by (simp add: NewBrowserController_def)
  qed
  then have eq: "hs = map (\<lambda>k. 1 + int k) [0..<length hs]"
    by (simp add: NewBrowserController_def)
  have 1: "sorted_wrt (<) (map (\<lambda>k. 1 + int k) [0..<length hs])"
    by (simp add: sorted_wrt_map)
  have 2: "distinct (map (\<lambda>k. 1 + int k) [0..<length hs])"
    by (simp add: distinct_map inj_on_def)
  have 3: "hs \<noteq> [] \<longrightarrow> hd hs = 1"
  proof
    assume "hs \<noteq> []"
    then have "0 < length hs" by simp
    then have "hd (map (\<lambda>k. 1 + int k) [0..<length hs]) = 1"
      by (simp add: hd_map upt_conv_Cons)
    with eq show "hd hs = 1" by simp
  qed
  from eq 1 2 3 show ?thesis
    by metis
qed

lemma session_handles:
  "fst (run flaky_driver [] (\<lambda>K. [3, 2, 1]) session_calls (NewBrowserController, empty_world))
     = [1, 2, 3, 4]"
  by (simp add: session_calls_def flaky_driver_def fixture_defs CloseAllBrowsers_def
      monitorContext_def terminate_def ctx_done_def)

theorem handles_increasing_witness:
  "int (length (fst (run flaky_driver [] (\<lambda>K. [3, 2, 1]) session_calls
                       (NewBrowserController, empty_world)))) < 2 ^ 63
   \<and> fst (run flaky_driver [] (\<lambda>K. [3, 2, 1]) session_calls (NewBrowserController, empty_world))
       = [1, 2, 3, 4]
   \<and> sorted_wrt (<) (fst (run flaky_driver [] (\<lambda>K. [3, 2, 1]) session_calls
                             (NewBrowserController, empty_world)))
   \<and> distinct (fst (run flaky_driver [] (\<lambda>K. [3, 2, 1]) session_calls
                       (NewBrowserController, empty_world)))
   \<and> hd (fst (run flaky_driver [] (\<lambda>K. [3, 2, 1]) session_calls
                 (NewBrowserController, empty_world))) = 1"
proof -
  let ?r = "run flaky_driver [] (\<lambda>K. [3, 2, 1]) session_calls (NewBrowserController, empty_world)"
  have r: "?r = (fst ?r, snd ?r)"
    by simp
  have b: "int (length (fst ?r)) < 2 ^ 63"
    by (simp add: session_handles)
  have n: "fst ?r \<noteq> []"
    by (simp add: session_handles)
  show ?thesis
    using handles_increasing [OF r b] b n session_handles by simp
qed

section \<open>The pointers of the map\<close>

lemma valid_pointers_fresh: "valid_pointers (NewBrowserController, w)"
  by (simp add: valid_pointers_def NewBrowserController_def)

lemma valid_pointers_heap:
  assumes "valid_pointers (bc, w)" and "length (heap w) \<le> length (heap w1)"
    and "\<And>i a. fmlookup (instances bc1) i = Some a \<Longrightarrow>
           fmlookup (instances bc) i = Some a \<or> a < length (heap w1)"
  shows "valid_pointers (bc1, w1)"
  unfolding valid_pointers_def fmpred_iff
proof (intro allI impI)
  fix i a
  assume "fmlookup (instances (fst (bc1, w1))) i = Some a"
  then have "fmlookup (instances bc) i = Some a \<or> a < length (heap w1)"
    using assms(3) by simp
  then show "a < length (heap (snd (bc1, w1)))"
  proof
    assume "fmlookup (instances bc) i = Some a"
    with assms(1) have "a < length (heap w)"
      by (auto simp add: valid_pointers_def)
    with assms(2) show ?thesis by simp
  next
    assume "a < length (heap w1)"
    then show ?thesis by simp
  qed
qed

lemma valid_pointers_step:
  assumes "valid_pointers (bc, w)"
  shows "valid_pointers (snd (step drv defaults order c (bc, w)))"
proof (cases c)
  case (Launch options)
  obtain r bc1 w1 where l: "LaunchBrowser drv defaults options (bc, w) = (r, bc1, w1)"
    using prod_cases3 by blast
  have "valid_pointers (bc1, w1)"
  proof (rule valid_pointers_heap [of bc w])
    show "valid_pointers (bc, w)"
      using assms by simp
    show "length (heap w) \<le> length (heap w1)"
      using LaunchBrowser_cases [OF l] by auto
    show "fmlookup (instances bc) i = Some a \<or> a < length (heap w1)"
      if "fmlookup (instances bc1) i = Some a" for i a
      using LaunchBrowser_cases [OF l] that by (auto split: if_splits)
  qed
  with Launch l show ?thesis
    by (auto split: sum.splits)
next
  case (CloseCall i)
  have "valid_pointers (snd (CloseBrowser drv i (bc, w)))"
  proof (cases "fmlookup (instances bc) i")
    case None
    with assms show ?thesis
      by (simp add: CloseBrowser_def)
  next
    case (Some b)
    have "valid_pointers (bc\<lparr>instances := fmdrop i (instances bc)\<rparr>, Close drv b w)"
    proof (rule valid_pointers_heap [of bc w])
      show "valid_pointers (bc, w)"
        using assms by simp
    qed (auto simp add: length_heap_Close split: if_splits)
    with Some show ?thesis
      by (simp add: CloseBrowser_def)
  qed
  with CloseCall show ?thesis by simp
next
  case CloseAllCall
  let ?r = "CloseAllBrowsers_loop drv (order (fmdom (instances bc))) (bc, w)"
  have "valid_pointers (fst ?r, snd ?r)"
  proof (rule valid_pointers_heap [of bc w])
    show "valid_pointers (bc, w)"
      using assms by simp
  qed (auto simp add: CloseAllBrowsers_loop_length_heap CloseAllBrowsers_loop_lookup
        split: if_splits)
  with CloseAllCall show ?thesis
    by (simp add: CloseAllBrowsers_def)
next
  case (InstanceClose a)
  have "valid_pointers (bc, Close drv a w)"
    by (rule valid_pointers_heap [of bc w])
      (use assms in \<open>auto simp add: length_heap_Close\<close>)
  with InstanceClose show ?thesis by simp
next
  case (Crash x)
  have "valid_pointers (bc, terminate x w)"
    by (rule valid_pointers_heap [of bc w])
      (use assms in \<open>auto simp add: terminate_def emit_def\<close>)
  with Crash show ?thesis by simp
next
  case (MonitorStep a)
  have "valid_pointers (bc, case monitorContext drv a w of None \<Rightarrow> w | Some w2 \<Rightarrow> w2)"
    by (rule valid_pointers_heap [of bc w])
      (use assms in \<open>auto simp add: monitorContext_def length_heap_Close\<close>)
  with MonitorStep show ?thesis by (simp cong: option.case_cong)
qed

lemma valid_pointers_run:
  "valid_pointers s \<Longrightarrow> valid_pointers (snd (run drv defaults order cs s))"
proof (induction cs arbitrary: s)
  case Nil
  then show ?case by simp
next
  case (Cons c cs)
  from Cons.prems have "valid_pointers (snd (step drv defaults order c s))"
    by (cases s) (simp only: valid_pointers_step)
  then have "valid_pointers (snd (run drv defaults order cs (snd (step drv defaults order c s))))"
    by (rule Cons.IH)
  then show ?case
    by (simp add: split_beta)
qed

section \<open>The flag is never reset\<close>

lemma LaunchBrowser_heap:
  "\<exists>xs. heap (snd (snd (LaunchBrowser drv defaults options (bc, w)))) = heap w @ xs"
  by (simp add: LaunchBrowser_def Let_def register_instance_eq emit_def split: option.splits)

lemma Closed_step:
  assumes "a < length (heap w)" and "Closed a w"
  shows "a < length (heap (snd (snd (step drv defaults order c (bc, w)))))
       \<and> Closed a (snd (snd (step drv defaults order c (bc, w))))"
proof (cases c)
  case (Launch options)
  obtain xs where "heap (snd (snd (LaunchBrowser drv defaults options (bc, w)))) = heap w @ xs"
    using LaunchBrowser_heap by blast
  with assms have "a < length (heap (snd (snd (LaunchBrowser drv defaults options (bc, w)))))
       \<and> Closed a (snd (snd (LaunchBrowser drv defaults options (bc, w))))"
    by (simp add: Closed_def nth_append)
  with Launch show ?thesis
    by (auto split: prod.splits sum.splits)
next
  case (CloseCall i)
  with assms show ?thesis
    by (simp add: CloseBrowser_def length_heap_Close Closed_Close_mono split: option.splits)
next
  case CloseAllCall
  with assms show ?thesis
    by (simp add: CloseAllBrowsers_def CloseAllBrowsers_loop_length_heap
        CloseAllBrowsers_loop_Closed)
next
  case (InstanceClose b)
  with assms show ?thesis
    by (simp add: length_heap_Close Closed_Close_mono)
next
  case (Crash x)
  with assms show ?thesis
    by (simp add: terminate_def emit_def Closed_def)
next
  case (MonitorStep b)
  have "Closed a (w\<lparr>monitors := removeAll b (monitors w)\<rparr>)"
    using assms(2) by (simp add: Closed_def)
  then have "Closed a (Close drv b (w\<lparr>monitors := removeAll b (monitors w)\<rparr>))"
    by (rule Closed_Close_mono)
  with MonitorStep assms show ?thesis
    by (simp add: monitorContext_def length_heap_Close)
qed

lemma Closed_run:
  assumes "a < length (heap w)" and "Closed a w"
  shows "a < length (heap (snd (snd (run drv defaults order cs (bc, w)))))
       \<and> Closed a (snd (snd (run drv defaults order cs (bc, w))))"
  using assms
proof (induction cs arbitrary: bc w)
  case Nil
  then show ?case by simp
next
  case (Cons c cs)
  obtain h bc1 w1 where st: "step drv defaults order c (bc, w) = (h, bc1, w1)"
    using prod_cases3 by blast
  from Closed_step [OF Cons.prems, of drv defaults order c bc] st
  have "a < length (heap w1)" "Closed a w1"
    by simp_all
  then have "a < length (heap (snd (snd (run drv defaults order cs (bc1, w1)))))
       \<and> Closed a (snd (snd (run drv defaults order cs (bc1, w1))))"
    by (rule Cons.IH)
  with st show ?case
    by (simp add: split_beta)
qed

text \<open>
  C2. \<open>Close\<close> is idempotent. On an instance whose flag is already set it returns at once,
  with no error and the world unchanged; after any number \<open>n\<close> of \<open>Close\<close> calls the world is
  the one the first call left, so \<open>chromedp.Cancel\<close> and the release function have run at
  most once: the trace of an open instance grows by exactly one \<open>ChromedpCancel\<close> and one
  run of the release function, however many calls follow. No call resets the flag: once
  set it stays set through any run of calls, so every later \<open>Close\<close> is the no-op above.
\<close>

theorem Close_idempotent:
  assumes "a < length (heap w)"
  shows "(Closed a w \<longrightarrow> Close drv a w = w \<and> Close_1 drv a w = (None, w))
       \<and> (Closed a w \<longrightarrow> Closed a (snd (snd (run drv' defaults order calls (bc, w)))))
       \<and> (Close drv a ^^ Suc n) w = Close drv a w
       \<and> fst (Close_1 drv a (Close drv a w)) = None
       \<and> snd (Close_1 drv a (Close drv a w)) = Close drv a w
       \<and> (\<not> Closed a w \<longrightarrow>
            trace ((Close drv a ^^ Suc n) w) =
              trace w
              @ ChromedpCancel (Ctx (heap w ! a))
                # (case cancel drv (trace w) (Ctx (heap w ! a)) of
                     Some e \<Rightarrow> [LogCancelFailed (ID (heap w ! a)) e] | None \<Rightarrow> [])
              @ (case Cancel (heap w ! a) of Some f \<Rightarrow> f | None \<Rightarrow> [])
              @ [LogClosed (ID (heap w ! a))])"
proof -
  have 1: "Closed a w \<longrightarrow> Close drv a w = w \<and> Close_1 drv a w = (None, w)"
    by (simp add: Close_1_eq Close_closed)
  have 2: "(Close drv a ^^ Suc n) w = Close drv a w"
    by (rule Close_funpow)
  have 3: "Close_1 drv a (Close drv a w) = (None, Close drv a w)"
    by (simp add: Close_1_eq Close_Close)
  have 4: "Closed a w \<longrightarrow> Closed a (snd (snd (run drv' defaults order calls (bc, w))))"
    using Closed_run [OF assms] by simp
  show ?thesis
    using 1 2 3 4 trace_Close_open [OF assms] by simp
qed

theorem Close_idempotent_witness:
  "0 < length (heap (snd one_open))
   \<and> \<not> Closed 0 (snd one_open)
   \<and> Closed 0 (snd one_closed)
   \<and> Closed 0 (snd (snd (run flaky_driver [] (\<lambda>K. [3, 2, 1]) session_calls one_closed)))
   \<and> Close stub_driver 0 (snd one_closed) = snd one_closed
   \<and> Close_1 stub_driver 0 (snd one_closed) = (None, snd one_closed)
   \<and> (Close stub_driver 0 ^^ 3) (snd one_open) = snd one_closed
   \<and> trace ((Close stub_driver 0 ^^ 3) (snd one_open)) =
        trace (snd one_open) @ [ChromedpCancel 0, CancelCtx 0, CancelAlloc 0, LogClosed 1]"
proof -
  have h: "0 < length (heap (snd one_open))" "0 < length (heap (snd one_closed))"
    by (simp_all add: one_open_eq one_closed_eq)
  have c: "Close stub_driver 0 (snd one_open) = snd one_closed"
    by (simp add: one_closed_def CloseBrowser_def one_open_eq)
  have o: "\<not> Closed 0 (snd one_open)" "Closed 0 (snd one_closed)"
    by (simp_all add: one_open_eq one_closed_eq Closed_def)
  have t: "trace (snd one_closed) =
        trace (snd one_open) @ [ChromedpCancel 0, CancelCtx 0, CancelAlloc 0, LogClosed 1]"
    by (simp add: one_open_eq one_closed_eq)
  show ?thesis
    using Close_idempotent [OF h(1), where drv = stub_driver and n = 2]
      Close_idempotent [OF h(2), where drv = stub_driver and n = 0 and drv' = flaky_driver
        and defaults = "[]" and order = "\<lambda>K. [3, 2, 1]" and calls = session_calls
        and bc = "fst one_closed"]
      h o c t
    by (simp add: numeral_3_eq_3)
qed

end
